theory Spec2Isabelle
  imports Complex_Main "HOL-Library.AList" "HOL-Library.Multiset"
begin

section \<open>Heatmap and clickmap logic of the toolbar (heatmapLogic.ts)\<close>

text \<open>
  The development follows \<^verbatim>\<open>frontend/src/toolbar/elements/heatmapLogic.ts\<close>.
  A JavaScript \<^verbatim>\<open>number\<close> that carries data (counts, coordinates, fractions, the scroll
  offset) is modelled as an exact rational; \<^verbatim>\<open>Math.round\<close> is \<open>round\<close>, that is
  \<open>\<lfloor>v + 1/2\<rfloor>\<close>, which rounds halves upwards as JavaScript does. The window width is
  \<^verbatim>\<open>window.innerWidth\<close>, an integer number of CSS pixels, and is modelled as \<open>int\<close>.
\<close>

type_synonym number = rat

subsection \<open>Heatmap projector\<close>

text \<open>
  A raw heatmap record is either a scroll-depth record or a pointer record; the source
  tells them apart with \<^verbatim>\<open>'scroll_depth_bucket' in element\<close>.
\<close>

datatype HeatmapRecord =
    ScrollDepthRecord (scroll_depth_bucket: number) (cumulative_count: number)
  | PointerRecord (pointer_count: number) (pointer_relative_x: number)
      (pointer_target_fixed: bool) (pointer_y: number)

text \<open>\<^verbatim>\<open>HeatmapElement\<close>: fields \<^verbatim>\<open>count\<close>, \<^verbatim>\<open>xPercentage\<close>, \<^verbatim>\<open>targetFixed\<close>, \<^verbatim>\<open>y\<close>.\<close>

record HeatmapElement =
  he_count :: number
  he_xPercentage :: number
  he_targetFixed :: bool
  he_y :: number

text \<open>\<^verbatim>\<open>HeatmapJsDataPoint\<close>: fields \<^verbatim>\<open>x\<close>, \<^verbatim>\<open>y\<close>, \<^verbatim>\<open>value\<close>.\<close>

record HeatmapJsDataPoint =
  pt_x :: int
  pt_y :: int
  pt_value :: number

text \<open>\<^verbatim>\<open>HeatmapJsData\<close>: fields \<^verbatim>\<open>data\<close>, \<^verbatim>\<open>max\<close>, \<^verbatim>\<open>min\<close>.\<close>

record HeatmapJsData =
  js_data :: "HeatmapJsDataPoint list"
  js_max :: number
  js_min :: number

datatype HeatmapFixedPositionMode = Fixed | Relative | Hidden

text \<open>The body of the \<^verbatim>\<open>forEach\<close> of selector \<^verbatim>\<open>heatmapElements\<close>.\<close>

fun toHeatmapElement :: "HeatmapRecord \<Rightarrow> HeatmapElement" where
  "toHeatmapElement (ScrollDepthRecord bucket cumulative) =
     \<lparr>he_count = cumulative, he_xPercentage = 0, he_targetFixed = False, he_y = bucket\<rparr>"
| "toHeatmapElement (PointerRecord c relx fixed py) =
     \<lparr>he_count = c, he_xPercentage = relx, he_targetFixed = fixed, he_y = py\<rparr>"

text \<open>
  Selector \<^verbatim>\<open>heatmapElements\<close>: \<open>None\<close> is the \<^verbatim>\<open>null\<close> of a heatmap that was never
  loaded; otherwise the argument is the \<^verbatim>\<open>results\<close> array of the response.
\<close>

definition heatmapElements :: "HeatmapRecord list option \<Rightarrow> HeatmapElement list" where
  "heatmapElements rawHeatmap =
     (case rawHeatmap of
        None \<Rightarrow> []
      | Some results \<Rightarrow> foldl (\<lambda>elements element. elements @ [toHeatmapElement element]) [] results)"

text \<open>The reducer function passed to \<^verbatim>\<open>heatmapElements.reduce\<close> in \<^verbatim>\<open>heatmapJsData\<close>.\<close>

definition heatmapJsDataStep ::
  "number \<Rightarrow> int \<Rightarrow> HeatmapFixedPositionMode \<Rightarrow>
   HeatmapJsDataPoint list \<Rightarrow> HeatmapElement \<Rightarrow> HeatmapJsDataPoint list" where
  "heatmapJsDataStep heatmapScrollY windowWidth heatmapFixedPositionMode acc element =
     (if heatmapFixedPositionMode = Hidden \<and> he_targetFixed element then acc
      else
        let y = round (if he_targetFixed element \<and> heatmapFixedPositionMode = Fixed
                       then he_y element
                       else he_y element - heatmapScrollY);
            x = round (he_xPercentage element * of_int windowWidth)
        in acc @ [\<lparr>pt_x = x, pt_y = y, pt_value = he_count element\<rparr>])"

definition heatmapJsData ::
  "HeatmapElement list \<Rightarrow> number \<Rightarrow> int \<Rightarrow> HeatmapFixedPositionMode \<Rightarrow> HeatmapJsData" where
  "heatmapJsData heatmapElems heatmapScrollY windowWidth heatmapFixedPositionMode =
     (let data = foldl (heatmapJsDataStep heatmapScrollY windowWidth heatmapFixedPositionMode)
                   [] heatmapElems;
          mx = foldl (\<lambda>m p. max m (pt_value p)) 0 data
      in \<lparr>js_data = data, js_max = mx, js_min = 0\<rparr>)"

subsection \<open>Viewport range\<close>

text \<open>
  Selector \<^verbatim>\<open>viewportRange\<close>. Its first argument is \<^verbatim>\<open>heatmapFilters.viewportAccuracy\<close>,
  an optional field: \<open>None\<close> is \<^verbatim>\<open>undefined\<close>, replaced by \<^verbatim>\<open>0.2\<close>.
\<close>

record ViewportRange =
  vr_min :: int
  vr_max :: int

definition viewportRange :: "number option \<Rightarrow> int \<Rightarrow> ViewportRange" where
  "viewportRange viewportAccuracyOpt windowWidth =
     (let viewportAccuracy = (case viewportAccuracyOpt of None \<Rightarrow> 2 / 10 | Some a \<Rightarrow> a);
          extraPixels = of_int windowWidth - of_int windowWidth * viewportAccuracy;
          minWidth = max 0 (of_int windowWidth - extraPixels);
          maxWidth = of_int windowWidth + extraPixels
      in \<lparr>vr_min = round minWidth, vr_max = round maxWidth\<rparr>)"

subsection \<open>Element aggregator\<close>

text \<open>
  A DOM node is represented by a handle; two handles are equal exactly when they denote
  the same node, which is the key equality of the JavaScript \<^verbatim>\<open>Map\<close>.
\<close>

type_synonym HTMLElement = nat

text \<open>
  The object literal that selector \<^verbatim>\<open>elements\<close> pushes (and casts to
  \<^verbatim>\<open>CountedHTMLElement\<close>): fields \<^verbatim>\<open>element\<close>, \<^verbatim>\<open>count\<close>, \<^verbatim>\<open>selector\<close>, \<^verbatim>\<open>hash\<close>,
  \<^verbatim>\<open>type\<close>.
\<close>

record ResolvedElement =
  ce_element :: HTMLElement
  ce_count :: number
  ce_selector :: string
  ce_hash :: "string option"
  ce_type :: string

text \<open>
  \<^verbatim>\<open>CountedHTMLElement\<close> as selector \<^verbatim>\<open>countedElements\<close> builds it: the spread of the
  resolved element, then \<^verbatim>\<open>clickCount\<close>, \<^verbatim>\<open>rageclickCount\<close>, \<^verbatim>\<open>actionStep\<close> and, after
  sorting, \<^verbatim>\<open>position\<close> (\<open>None\<close> while the field is absent).
\<close>

record 'a CountedHTMLElement = ResolvedElement +
  ce_clickCount :: number
  ce_rageclickCount :: number
  ce_actionStep :: 'a
  ce_position :: "nat option"

text \<open>
  The body of the \<^verbatim>\<open>forEach\<close> of \<^verbatim>\<open>countedElements\<close>. The \<^verbatim>\<open>Map\<close> is an association list
  in insertion order: \<open>map_of\<close> is \<^verbatim>\<open>get\<close>, and \<open>AList.update\<close> replaces the value of a
  key that is present where it stands and appends a new key at the end, as \<^verbatim>\<open>set\<close> does
  and as mutating the stored object does. \<^verbatim>\<open>trimElement\<close> and \<^verbatim>\<open>elementToActionStep\<close>
  live in \<^verbatim>\<open>~/toolbar/utils\<close> and are parameters.
\<close>

definition countedElementsStep ::
  "(HTMLElement \<Rightarrow> HTMLElement option) \<Rightarrow> (HTMLElement \<Rightarrow> 'a) \<Rightarrow>
   (HTMLElement \<times> 'a CountedHTMLElement) list \<Rightarrow> ResolvedElement \<Rightarrow>
   (HTMLElement \<times> 'a CountedHTMLElement) list" where
  "countedElementsStep trimElement elementToActionStep normalisedElements countedElement =
     (case trimElement (ce_element countedElement) of
        None \<Rightarrow> normalisedElements
      | Some trimmedElement \<Rightarrow>
          (case map_of normalisedElements trimmedElement of
             Some existing \<Rightarrow>
               AList.update trimmedElement
                 (existing\<lparr>
                    ce_count := ce_count existing + ce_count countedElement,
                    ce_clickCount := ce_clickCount existing +
                      (if ce_type countedElement = ''$rageclick'' then 0
                       else ce_count countedElement),
                    ce_rageclickCount := ce_rageclickCount existing +
                      (if ce_type countedElement = ''$rageclick''
                       then ce_count countedElement else 0)\<rparr>)
                 normalisedElements
           | None \<Rightarrow>
               AList.update trimmedElement
                 \<lparr>ce_element = trimmedElement,
                  ce_count = ce_count countedElement,
                  ce_selector = ce_selector countedElement,
                  ce_hash = ce_hash countedElement,
                  ce_type = ce_type countedElement,
                  ce_clickCount =
                    (if ce_type countedElement = ''$rageclick'' then 0
                     else ce_count countedElement),
                  ce_rageclickCount =
                    (if ce_type countedElement = ''$rageclick''
                     then ce_count countedElement else 0),
                  ce_actionStep = elementToActionStep trimmedElement,
                  ce_position = None\<rparr>
                 normalisedElements))"

text \<open>The \<^verbatim>\<open>Map\<close> \<^verbatim>\<open>normalisedElements\<close> after the \<^verbatim>\<open>forEach\<close>.\<close>

definition normalisedElements ::
  "(HTMLElement \<Rightarrow> HTMLElement option) \<Rightarrow> (HTMLElement \<Rightarrow> 'a) \<Rightarrow>
   ResolvedElement list \<Rightarrow> (HTMLElement \<times> 'a CountedHTMLElement) list" where
  "normalisedElements trimElement elementToActionStep elems =
     foldl (countedElementsStep trimElement elementToActionStep) [] elems"

text \<open>
  Selector \<^verbatim>\<open>countedElements\<close>. \<^verbatim>\<open>Array.prototype.sort\<close> is stable, and the comparator
  \<^verbatim>\<open>(a, b) => b.count - a.count\<close> orders by descending count; the stable sort of a list
  under an ordering of keys is unique, and \<open>sort_key\<close> on the negated count computes it.
  \<^verbatim>\<open>map((e, i) => ({ ...e, position: i + 1 }))\<close> is the final \<open>map\<close> over the indexed list.
\<close>

definition countedElements ::
  "(HTMLElement \<Rightarrow> HTMLElement option) \<Rightarrow> (HTMLElement \<Rightarrow> 'a) \<Rightarrow>
   ResolvedElement list \<Rightarrow> bool \<Rightarrow> 'a CountedHTMLElement list" where
  "countedElements trimElement elementToActionStep elems clickmapsEnabled =
     (if \<not> clickmapsEnabled then []
      else
        let countedElems = map snd (normalisedElements trimElement elementToActionStep elems);
            sortedElems = sort_key (\<lambda>e. - ce_count e) countedElems
        in map (\<lambda>(i, e). e\<lparr>ce_position := Some (i + 1)\<rparr>) (enumerate 0 sortedElems))"

subsection \<open>Recorded events\<close>

text \<open>
  \<^verbatim>\<open>ElementType\<close>, one element of a recorded event's path: \<^verbatim>\<open>tag_name\<close>, \<^verbatim>\<open>attr_class\<close>,
  \<^verbatim>\<open>attr_id\<close>, \<^verbatim>\<open>href\<close>, \<^verbatim>\<open>text\<close>, \<^verbatim>\<open>nth_child\<close>, \<^verbatim>\<open>nth_of_type\<close> and the
  \<^verbatim>\<open>attributes\<close> dictionary. \<open>None\<close> is an absent (\<^verbatim>\<open>undefined\<close> or \<^verbatim>\<open>null\<close>) field.
\<close>

record ElementType =
  et_tag_name :: "string option"
  et_attr_class :: "string list option"
  et_attr_id :: "string option"
  et_href :: "string option"
  et_text :: "string option"
  et_nth_child :: "int option"
  et_nth_of_type :: "int option"
  et_attributes :: "(string \<times> string) list"

text \<open>\<^verbatim>\<open>ElementsEventType\<close>: \<^verbatim>\<open>count\<close>, \<^verbatim>\<open>elements\<close> (innermost first), \<^verbatim>\<open>hash\<close>, \<^verbatim>\<open>type\<close>.\<close>

record ElementsEventType =
  ev_count :: number
  ev_elements :: "ElementType list"
  ev_hash :: "string option"
  ev_type :: string

subsection \<open>Loading the element statistics\<close>

text \<open>A field that JavaScript distinguishes as \<^verbatim>\<open>undefined\<close>, \<^verbatim>\<open>null\<close> or a value.\<close>

datatype 'a nullable = Undefined | Null | Value 'a

text \<open>\<^verbatim>\<open>PaginatedResponse<ElementsEventType>\<close>: \<^verbatim>\<open>results\<close>, \<^verbatim>\<open>next\<close>, \<^verbatim>\<open>previous\<close>.\<close>

record PaginatedResponse =
  pr_results :: "ElementsEventType list"
  pr_next :: "string nullable"
  pr_previous :: "string nullable"






text \<open>
  The state that the loader and the reducers listening to it read and write, and the
  number of calls of \<^verbatim>\<open>toolbarConfigLogic.actions.authenticate\<close> so far.
\<close>

record LogicState =
  elementStats :: "PaginatedResponse option"
  canLoadMoreElementStats :: bool
  heatmapEnabled :: bool
  clickmapsEnabled :: bool
  authenticateCalls :: nat




subsection \<open>Selector resolver\<close>

text \<open>A thrown JavaScript exception, with its message.\<close>

datatype JsError = JsError string

text \<open>Truthiness of an optional string: absent and empty strings are falsy.\<close>

definition truthy :: "string option \<Rightarrow> bool" where
  "truthy s = (case s of None \<Rightarrow> False | Some str \<Rightarrow> str \<noteq> [])"

text \<open>
  The condition of the inner \<^verbatim>\<open>if\<close> of selector \<^verbatim>\<open>elements\<close>, without its conjunct
  \<^verbatim>\<open>i === 0\<close>: a tag name and nothing else that distinguishes the element. An array is
  truthy even when empty, so \<^verbatim>\<open>!e.attr_class\<close> holds only for an absent class list.
\<close>

definition tooSimple :: "ElementType \<Rightarrow> bool" where
  "tooSimple e \<longleftrightarrow>
     truthy (et_tag_name e) \<and>
     et_attr_class e = None \<and>
     \<not> truthy (et_attr_id e) \<and>
     \<not> truthy (et_href e) \<and>
     \<not> truthy (et_text e) \<and>
     et_nth_child e = Some 1 \<and>
     et_nth_of_type e = Some 1 \<and>
     \<not> truthy (map_of (et_attributes e) ''attr__data-attr'')"

text \<open>
  The mutable \<^verbatim>\<open>cache\<close> of the logic: \<^verbatim>\<open>lastHref\<close>, \<^verbatim>\<open>pageElements\<close> and the memo table
  \<^verbatim>\<open>selectorToElements\<close>.
\<close>

record Cache =
  lastHref :: "string option"
  pageElements :: "HTMLElement list"
  selectorToElements :: "string \<rightharpoonup> HTMLElement list"

text \<open>
  The first statements of the \<^verbatim>\<open>try\<close> block: the memo table answers when it has an entry
  for the selector; otherwise \<^verbatim>\<open>querySelectorAllDeep\<close> runs, and its answer is stored unless
  it throws. \<^verbatim>\<open>querySelectorAllDeep\<close> (package query-selector-shadow-dom, on the current
  document) is the parameter \<open>query\<close>.
\<close>

definition lookupDomElements ::
  "(string \<Rightarrow> HTMLElement list \<Rightarrow> JsError + HTMLElement list) \<Rightarrow> Cache \<Rightarrow> string \<Rightarrow>
   JsError + Cache \<times> HTMLElement list" where
  "lookupDomElements query cache combinedSelector =
     (case selectorToElements cache combinedSelector of
        Some domElements \<Rightarrow> Inr (cache, domElements)
      | None \<Rightarrow>
          (case query combinedSelector (pageElements cache) of
             Inl err \<Rightarrow> Inl err
           | Inr domElements \<Rightarrow>
               Inr (cache\<lparr>selectorToElements :=
                      (selectorToElements cache)(combinedSelector \<mapsto> domElements)\<rparr>,
                    domElements)))"

text \<open>
  The selector of one path element: \<^verbatim>\<open>elementToSelector(matchLinksByHref ? element :
  { ...element, href: undefined }, dataAttributes) || '*'\<close>. \<^verbatim>\<open>elementToSelector\<close> lives
  in \<^verbatim>\<open>lib/actionUtils\<close> and is a parameter; \<open>Inl\<close> is an exception that it throws.
\<close>

definition selectorFor ::
  "(ElementType \<Rightarrow> string list \<Rightarrow> JsError + string) \<Rightarrow> string list \<Rightarrow> bool \<Rightarrow>
   ElementType \<Rightarrow> JsError + string" where
  "selectorFor elementToSelector dataAttributes matchLinksByHref element =
     (case elementToSelector
             (if matchLinksByHref then element else element\<lparr>et_href := None\<rparr>)
             dataAttributes of
        Inl err \<Rightarrow> Inl err
      | Inr sel \<Rightarrow> Inr (if sel = [] then ''*'' else sel))"

text \<open>\<^verbatim>\<open>combinedSelector = lastSelector ? `${selector} > ${lastSelector}` : selector\<close>.\<close>

definition combineSelector :: "string option \<Rightarrow> string \<Rightarrow> string" where
  "combineSelector lastSelector selector =
     (if truthy lastSelector then selector @ '' > '' @ the lastSelector else selector)"

text \<open>
  The \<^verbatim>\<open>for\<close> loop over the path of one event, from index \<open>i\<close> with the current
  \<^verbatim>\<open>lastSelector\<close>. The selector is built outside the \<^verbatim>\<open>try\<close> block, so an exception
  of \<^verbatim>\<open>elementToSelector\<close> leaves the loop and the callback (\<open>Inl\<close>). An exception inside
  the \<^verbatim>\<open>try\<close> block is caught and breaks the loop. The result is the cache and the element
  pushed, if any.
\<close>

function matchElements ::
  "(ElementType \<Rightarrow> string list \<Rightarrow> JsError + string) \<Rightarrow>
   (string \<Rightarrow> HTMLElement list \<Rightarrow> JsError + HTMLElement list) \<Rightarrow>
   string list \<Rightarrow> bool \<Rightarrow> ElementsEventType \<Rightarrow> Cache \<Rightarrow> string option \<Rightarrow> nat \<Rightarrow>
   JsError + Cache \<times> ResolvedElement option" where
  "matchElements elementToSelector query dataAttributes matchLinksByHref event cache
     lastSelector i =
     (if i < length (ev_elements event) then
        let element = ev_elements event ! i in
        (case selectorFor elementToSelector dataAttributes matchLinksByHref element of
           Inl err \<Rightarrow> Inl err
         | Inr selector \<Rightarrow>
             let combinedSelector = combineSelector lastSelector selector in
             (case lookupDomElements query cache combinedSelector of
                Inl err \<Rightarrow> Inr (cache, None)
              | Inr (cache', domElements) \<Rightarrow>
                  if length domElements = 1 \<and> \<not> (i = 0 \<and> tooSimple element) then
                    Inr (cache',
                         Some \<lparr>ce_element = hd domElements,
                               ce_count = ev_count event,
                               ce_selector = selector,
                               ce_hash = ev_hash event,
                               ce_type = ev_type event\<rparr>)
                  else if length domElements = 0 \<and> i = length (ev_elements event) - 1 then
                    Inr (cache', None)
                  else if length domElements = 0 \<and> i > 0 \<and> truthy lastSelector then
                    matchElements elementToSelector query dataAttributes matchLinksByHref
                      event cache'
                      (Some (if truthy lastSelector then ''* > '' @ the lastSelector
                             else ''*''))
                      (i + 1)
                  else
                    matchElements elementToSelector query dataAttributes matchLinksByHref
                      event cache' (Some combinedSelector) (i + 1)))
      else Inr (cache, None))"
  by pat_completeness auto
termination
  by (relation "measure (\<lambda>(elementToSelector, query, dataAttributes, matchLinksByHref, event,
        cache, lastSelector, i). length (ev_elements event) - i)") auto

declare matchElements.simps [simp del]

text \<open>
  The \<^verbatim>\<open>forEach\<close> over the events: each callback runs the loop from \<^verbatim>\<open>i = 0\<close> with
  \<^verbatim>\<open>lastSelector\<close> undefined and pushes at most one element; an exception that leaves a
  callback leaves the \<^verbatim>\<open>forEach\<close>.
\<close>

fun elementsForEach ::
  "(ElementType \<Rightarrow> string list \<Rightarrow> JsError + string) \<Rightarrow>
   (string \<Rightarrow> HTMLElement list \<Rightarrow> JsError + HTMLElement list) \<Rightarrow>
   string list \<Rightarrow> bool \<Rightarrow> Cache \<Rightarrow> ResolvedElement list \<Rightarrow> ElementsEventType list \<Rightarrow>
   JsError + Cache \<times> ResolvedElement list" where
  "elementsForEach elementToSelector query dataAttributes matchLinksByHref cache elems [] =
     Inr (cache, elems)"
| "elementsForEach elementToSelector query dataAttributes matchLinksByHref cache elems
     (event # events) =
     (case matchElements elementToSelector query dataAttributes matchLinksByHref event cache
             None 0 of
        Inl err \<Rightarrow> Inl err
      | Inr (cache', pushed) \<Rightarrow>
          elementsForEach elementToSelector query dataAttributes matchLinksByHref cache'
            (case pushed of None \<Rightarrow> elems | Some e \<Rightarrow> elems @ [e]) events)"

text \<open>
  Selector \<^verbatim>\<open>elements\<close>. When the observed \<^verbatim>\<open>href\<close> differs from \<^verbatim>\<open>cache.lastHref\<close> the
  page elements are collected again (\<^verbatim>\<open>collectAllElementsDeep('*', document)\<close>, the
  parameter \<open>collectAllElementsDeep\<close>) and the memo table is emptied. A \<^verbatim>\<open>null\<close>
  \<^verbatim>\<open>elementStats\<close> has no events.
\<close>

definition elements ::
  "(ElementType \<Rightarrow> string list \<Rightarrow> JsError + string) \<Rightarrow>
   (string \<Rightarrow> HTMLElement list \<Rightarrow> JsError + HTMLElement list) \<Rightarrow>
   HTMLElement list \<Rightarrow> Cache \<Rightarrow>
   PaginatedResponse option \<Rightarrow> string list \<Rightarrow> string \<Rightarrow> bool \<Rightarrow>
   JsError + Cache \<times> ResolvedElement list" where
  "elements elementToSelector query collectAllElementsDeep cache
     elementStatsValue dataAttributes href matchLinksByHref =
     (let cache1 =
            cache\<lparr>pageElements :=
                    (if lastHref cache = Some href then pageElements cache
                     else collectAllElementsDeep),
                  selectorToElements :=
                    (if lastHref cache = Some href then selectorToElements cache
                     else Map.empty),
                  lastHref := Some href\<rparr>
      in elementsForEach elementToSelector query dataAttributes matchLinksByHref cache1 []
           (case elementStatsValue of None \<Rightarrow> [] | Some stats \<Rightarrow> pr_results stats))"




subsection \<open>Test data for the resolver\<close>







section \<open>Properties\<close>

subsection \<open>Auxiliary facts\<close>

lemma floor_rat_divide_numeral [simp]:
  "\<lfloor>numeral a / numeral b :: rat\<rfloor> = numeral a div numeral b"
  using floor_divide_of_int_eq [of "numeral a" "numeral b", where 'a = rat] by simp

lemma foldl_heatmapJsDataStep:
  "foldl (heatmapJsDataStep s w m) acc els =
     acc @ map (\<lambda>e. \<lparr>pt_x = round (he_xPercentage e * of_int w),
                      pt_y = round (if he_targetFixed e \<and> m = Fixed
                                    then he_y e else he_y e - s),
                      pt_value = he_count e\<rparr>)
             (filter (\<lambda>e. \<not> (m = Hidden \<and> he_targetFixed e)) els)"
  by (induction els arbitrary: acc) (simp_all add: heatmapJsDataStep_def Let_def)

lemma foldl_toHeatmapElement:
  "foldl (\<lambda>elements element. elements @ [toHeatmapElement element]) acc rs =
     acc @ map toHeatmapElement rs"
  by (induction rs arbitrary: acc) simp_all

lemma heatmapElements_Some: "heatmapElements (Some rs) = map toHeatmapElement rs"
  by (simp add: heatmapElements_def foldl_toHeatmapElement)

lemma js_data_heatmapJsData:
  "js_data (heatmapJsData els s w m) =
     map (\<lambda>e. \<lparr>pt_x = round (he_xPercentage e * of_int w),
                pt_y = round (if he_targetFixed e \<and> m = Fixed then he_y e else he_y e - s),
                pt_value = he_count e\<rparr>)
         (filter (\<lambda>e. \<not> (m = Hidden \<and> he_targetFixed e)) els)"
  by (simp add: heatmapJsData_def Let_def foldl_heatmapJsDataStep)

lemma viewportRange_bounds:
  assumes "0 \<le> w" "0 \<le> a" "a \<le> 1"
  shows "vr_min (viewportRange (Some a) w) \<le> w \<and> w \<le> vr_max (viewportRange (Some a) w)"
proof -
  have le: "of_int w * a \<le> (of_int w :: rat)"
    using assms by (simp add: mult_left_le)
  have nonneg: "0 \<le> of_int w * a"
    using assms by simp
  have "round (max 0 (of_int w - (of_int w - of_int w * a))) \<le> round (of_int w :: rat)"
    using le nonneg by (intro round_mono) simp
  moreover have "round (of_int w :: rat) \<le> round (of_int w + (of_int w - of_int w * a))"
    using le by (intro round_mono) simp
  ultimately show ?thesis
    by (simp add: viewportRange_def Let_def)
qed

subsection \<open>Heatmap projector\<close>




text \<open>
  Claim C4, as the code has it. For every list of scroll-depth records and every render
  context (any scroll offset, window width and display mode), the emitted points are, in
  order, one per record with \<open>x = 0\<close>, \<open>value\<close> the cumulative count, and \<open>y\<close> the bucket
  threshold minus the current scroll offset, rounded.
\<close>

theorem scroll_depth_projection:
  assumes "\<forall>r \<in> set results. is_ScrollDepthRecord r"
  shows "js_data (heatmapJsData (heatmapElements (Some results)) scrollY windowWidth mode) =
           map (\<lambda>r. \<lparr>pt_x = 0, pt_y = round (scroll_depth_bucket r - scrollY),
                      pt_value = cumulative_count r\<rparr>) results"
  using assms
proof (induction results)
  case Nil
  show ?case by (simp add: js_data_heatmapJsData heatmapElements_Some)
next
  case (Cons r rs)
  then obtain b c where r: "r = ScrollDepthRecord b c"
    by (cases r) simp_all
  from Cons have "js_data (heatmapJsData (map toHeatmapElement rs) scrollY windowWidth mode) =
      map (\<lambda>r. \<lparr>pt_x = 0, pt_y = round (scroll_depth_bucket r - scrollY),
                 pt_value = cumulative_count r\<rparr>) rs"
    by (simp add: heatmapElements_Some)
  then show ?case
    by (simp add: js_data_heatmapJsData heatmapElements_Some r)
qed

theorem scroll_depth_projection_witness:
  "js_data (heatmapJsData
      (heatmapElements (Some [ScrollDepthRecord 500 7, ScrollDepthRecord 1000 2])) 100 1000 Hidden)
   = [\<lparr>pt_x = 0, pt_y = 400, pt_value = 7\<rparr>, \<lparr>pt_x = 0, pt_y = 900, pt_value = 2\<rparr>]"
  using scroll_depth_projection
    [of "[ScrollDepthRecord 500 7, ScrollDepthRecord 1000 2]" 100 1000 Hidden]
  by simp

text \<open>
  The claim as written has \<open>y\<close> equal to the bucket threshold in every render context.
  At scroll offset 100 the record with threshold 500 is drawn at \<open>y = 400\<close>.
\<close>

theorem scroll_depth_y_absolute_counterexample:
  "js_data (heatmapJsData (heatmapElements (Some [ScrollDepthRecord 500 7])) 100 1000 Fixed)
   = [\<lparr>pt_x = 0, pt_y = 400, pt_value = 7\<rparr>] \<and> (400 :: int) \<noteq> 500"
  by (simp add: js_data_heatmapJsData heatmapElements_Some)

text \<open>
  Claim C10. A heatmap element derived from a scroll-depth record has \<open>xPercentage = 0\<close>
  and \<open>targetFixed = False\<close>; the selector \<^verbatim>\<open>heatmapElements\<close> derives one element per
  record, in order. Consequently, wherever the record stands in the response and whatever
  the display mode (the mode \<^verbatim>\<open>hidden\<close> included), \<^verbatim>\<open>heatmapJsData\<close> emits its point
  between the points of the records before and after it, with the scroll offset subtracted
  from its \<open>y\<close>.
\<close>

theorem scroll_depth_element_never_hidden:
  "he_xPercentage (toHeatmapElement (ScrollDepthRecord bucket cumulative)) = 0 \<and>
   \<not> he_targetFixed (toHeatmapElement (ScrollDepthRecord bucket cumulative)) \<and>
   heatmapElements (Some results) = map toHeatmapElement results \<and>
   js_data (heatmapJsData
      (heatmapElements (Some (before @ ScrollDepthRecord bucket cumulative # after)))
      scrollY windowWidth mode) =
     js_data (heatmapJsData (heatmapElements (Some before)) scrollY windowWidth mode) @
     \<lparr>pt_x = 0, pt_y = round (bucket - scrollY), pt_value = cumulative\<rparr> #
     js_data (heatmapJsData (heatmapElements (Some after)) scrollY windowWidth mode)"
  by (simp add: js_data_heatmapJsData heatmapElements_Some)

theorem scroll_depth_element_never_hidden_witness:
  "js_data (heatmapJsData
      (heatmapElements (Some ([PointerRecord 4 (1 / 2) True 30] @ ScrollDepthRecord 800 9 # [])))
      300 1000 Hidden)
   = [\<lparr>pt_x = 0, pt_y = 500, pt_value = 9\<rparr>]"
  using scroll_depth_element_never_hidden
    [of 800 9 "[]" "[PointerRecord 4 (1 / 2) True 30]" "[]" 300 1000 Hidden]
  by (simp add: js_data_heatmapJsData heatmapElements_Some)

subsection \<open>Viewport range\<close>


text \<open>
  Claim C8, as the code has it. For every non-negative window width and every viewport
  accuracy between 0 and 1 the derived range contains the window width:
  \<open>min \<le> windowWidth \<le> max\<close>. The default accuracy 0.2 is such a fraction. The
  range misses the width only outside that domain, as at accuracy 1.5.
\<close>

theorem viewportRange_contains_width:
  assumes "0 \<le> windowWidth" "0 \<le> accuracy" "accuracy \<le> 1"
  shows "vr_min (viewportRange (Some accuracy) windowWidth) \<le> windowWidth \<and>
         windowWidth \<le> vr_max (viewportRange (Some accuracy) windowWidth) \<and>
         viewportRange None windowWidth = viewportRange (Some (2 / 10)) windowWidth \<and>
         viewportRange (Some (3 / 2)) 1000 = \<lparr>vr_min = 1500, vr_max = 500\<rparr>"
  using viewportRange_bounds [OF assms]
  by (simp add: viewportRange_def Let_def round_def)

theorem viewportRange_contains_width_witness:
  "(0 :: int) \<le> 1000 \<and> (0 :: rat) \<le> 9 / 10 \<and> (9 / 10 :: rat) \<le> 1 \<and>
   vr_min (viewportRange (Some (9 / 10)) 1000) \<le> 1000 \<and>
   1000 \<le> vr_max (viewportRange (Some (9 / 10)) 1000)"
  using viewportRange_contains_width [of 1000 "9 / 10"]
  by simp

text \<open>
  The claim as written says that some non-negative width and some accuracy between 0 and 1
  violate \<open>min \<le> windowWidth \<le> max\<close>. There is none.
\<close>

theorem viewportRange_violation_counterexample:
  "\<not> (\<exists>(windowWidth :: int) (accuracy :: rat).
        0 \<le> windowWidth \<and> 0 \<le> accuracy \<and> accuracy \<le> 1 \<and>
        \<not> (vr_min (viewportRange (Some accuracy) windowWidth) \<le> windowWidth \<and>
           windowWidth \<le> vr_max (viewportRange (Some accuracy) windowWidth)))"
  using viewportRange_bounds by blast

subsection \<open>Element aggregator\<close>

lemma distinct_countedElementsStep:
  "distinct (map fst al) \<Longrightarrow> distinct (map fst (countedElementsStep tr act al x))"
  by (simp add: countedElementsStep_def distinct_update split: option.splits)

lemma distinct_normalisedElements:
  "distinct (map fst (normalisedElements tr act els))"
  unfolding normalisedElements_def
  by (induction els rule: rev_induct) (simp_all add: distinct_countedElementsStep)

lemma map_of_countedElementsStep:
  "map_of (countedElementsStep tr act al x) =
     (case tr (ce_element x) of
        None \<Rightarrow> map_of al
      | Some t \<Rightarrow> (map_of al)(t \<mapsto>
          (case map_of al t of
             Some ex \<Rightarrow> ex\<lparr>
               ce_count := ce_count ex + ce_count x,
               ce_clickCount := ce_clickCount ex +
                 (if ce_type x = ''$rageclick'' then 0 else ce_count x),
               ce_rageclickCount := ce_rageclickCount ex +
                 (if ce_type x = ''$rageclick'' then ce_count x else 0)\<rparr>
           | None \<Rightarrow>
               \<lparr>ce_element = t, ce_count = ce_count x, ce_selector = ce_selector x,
                ce_hash = ce_hash x, ce_type = ce_type x,
                ce_clickCount = (if ce_type x = ''$rageclick'' then 0 else ce_count x),
                ce_rageclickCount = (if ce_type x = ''$rageclick'' then ce_count x else 0),
                ce_actionStep = act t, ce_position = None\<rparr>)))"
  by (simp add: countedElementsStep_def update_conv' split: option.splits)

lemma normalisedElements_snoc:
  "normalisedElements tr act (els @ [x]) =
     countedElementsStep tr act (normalisedElements tr act els) x"
  by (simp add: normalisedElements_def)

lemma normalisedElements_inv:
  "(map_of (normalisedElements tr act els) k = None \<longleftrightarrow>
      (\<forall>x \<in> set els. tr (ce_element x) \<noteq> Some k)) \<and>
   (\<forall>v. map_of (normalisedElements tr act els) k = Some v \<longrightarrow>
      ce_element v = k \<and> ce_position v = None \<and> ce_actionStep v = act k \<and>
      ce_count v = sum_list (map ce_count (filter (\<lambda>x. tr (ce_element x) = Some k) els)) \<and>
      ce_clickCount v = sum_list (map ce_count
        (filter (\<lambda>x. tr (ce_element x) = Some k \<and> ce_type x \<noteq> ''$rageclick'') els)) \<and>
      ce_rageclickCount v = sum_list (map ce_count
        (filter (\<lambda>x. tr (ce_element x) = Some k \<and> ce_type x = ''$rageclick'') els)))"
proof (induction els arbitrary: k rule: rev_induct)
  case Nil
  show ?case by (simp add: normalisedElements_def)
next
  case (snoc x els)
  let ?al = "normalisedElements tr act els"
  show ?case
  proof (cases "tr (ce_element x)")
    case None
    with snoc [of k] show ?thesis
      by (simp add: normalisedElements_snoc map_of_countedElementsStep)
  next
    case (Some t)
    show ?thesis
    proof (cases "t = k")
      case False
      with Some snoc [of k] show ?thesis
        by (simp add: normalisedElements_snoc map_of_countedElementsStep)
    next
      case True
      show ?thesis
      proof (cases "map_of ?al k")
        case None
        with snoc [of k] have no: "\<forall>y \<in> set els. tr (ce_element y) \<noteq> Some k"
          by simp
        then have "filter (\<lambda>y. tr (ce_element y) = Some k) els = []"
          "filter (\<lambda>y. tr (ce_element y) = Some k \<and> ce_type y \<noteq> ''$rageclick'') els = []"
          "filter (\<lambda>y. tr (ce_element y) = Some k \<and> ce_type y = ''$rageclick'') els = []"
          by (simp_all add: filter_empty_conv)
        with Some True None show ?thesis
          by (simp add: normalisedElements_snoc map_of_countedElementsStep)
      next
        case (Some ex)
        with snoc [of k] \<open>tr (ce_element x) = Some t\<close> True show ?thesis
          by (simp add: normalisedElements_snoc map_of_countedElementsStep)
      qed
    qed
  qed
qed


lemma normalisedElements_entry:
  assumes "v \<in> set (map snd (normalisedElements tr act els))"
  shows "map_of (normalisedElements tr act els) (ce_element v) = Some v"
proof -
  from assms obtain k where kv: "(k, v) \<in> set (normalisedElements tr act els)"
    by auto
  then have m: "map_of (normalisedElements tr act els) k = Some v"
    using distinct_normalisedElements [of tr act els] by simp
  with normalisedElements_inv [of tr act els k] have "ce_element v = k"
    by simp
  with m show ?thesis by simp
qed

lemma map_zip_snd:
  "length is = length xs \<Longrightarrow> map (\<lambda>(i, e). g e) (zip is xs) = map g xs"
  by (induction "is" xs rule: list_induct2) simp_all

lemma map_zip_fst:
  "length is = length xs \<Longrightarrow> map (\<lambda>(i, e). h i) (zip is xs) = map h is"
  by (induction "is" xs rule: list_induct2) simp_all

lemma strip_position_enumerate:
  "map (\<lambda>e. e\<lparr>ce_position := None\<rparr>)
     (map (\<lambda>(i, e). e\<lparr>ce_position := Some (i + 1)\<rparr>) (enumerate 0 xs)) =
   map (\<lambda>e. e\<lparr>ce_position := None\<rparr>) xs"
proof -
  have "map (\<lambda>e. e\<lparr>ce_position := None\<rparr>)
     (map (\<lambda>(i, e). e\<lparr>ce_position := Some (i + 1)\<rparr>) (enumerate 0 xs)) =
     map (\<lambda>(i, e). e\<lparr>ce_position := None\<rparr>) (zip [0..<length xs] xs)"
    by (simp add: enumerate_eq_zip case_prod_unfold o_def del: upt_Suc)
  then show ?thesis
    by (simp only: map_zip_snd [of "[0..<length xs]" xs, simplified])
qed

lemma positions_enumerate:
  "map ce_position (map (\<lambda>(i, e). e\<lparr>ce_position := Some (i + 1)\<rparr>) (enumerate 0 xs)) =
     map Some [1..<Suc (length xs)]"
proof -
  have "map ce_position (map (\<lambda>(i, e). e\<lparr>ce_position := Some (i + 1)\<rparr>) (enumerate 0 xs)) =
     map (\<lambda>(i, e). Some (Suc i)) (zip [0..<length xs] xs)"
    by (simp add: enumerate_eq_zip case_prod_unfold o_def del: upt_Suc)
  also have "\<dots> = map (\<lambda>i. Some (Suc i)) [0..<length xs]"
    by (rule map_zip_fst) simp
  also have "\<dots> = map Some (map Suc [0..<length xs])"
    by (simp del: upt_Suc)
  also have "\<dots> = map Some [1..<Suc (length xs)]"
    by (simp only: map_Suc_upt One_nat_def)
  finally show ?thesis .
qed

lemma countedElements_enabled:
  "countedElements tr act els True =
     map (\<lambda>(i, e). e\<lparr>ce_position := Some (i + 1)\<rparr>)
       (enumerate 0 (sort_key (\<lambda>e. - ce_count e) (map snd (normalisedElements tr act els))))"
  by (simp add: countedElements_def Let_def)

lemma countedElements_strip:
  "map (\<lambda>e. e\<lparr>ce_position := None\<rparr>) (countedElements tr act els True) =
     sort_key (\<lambda>e. - ce_count e) (map snd (normalisedElements tr act els))"
proof -
  let ?s = "sort_key (\<lambda>e. - ce_count e) (map snd (normalisedElements tr act els))"
  have none: "\<forall>e \<in> set ?s. ce_position e = None"
  proof
    fix e assume "e \<in> set ?s"
    then have "e \<in> set (map snd (normalisedElements tr act els))" by simp
    from normalisedElements_entry [OF this]
      normalisedElements_inv [of tr act els "ce_element e"]
    show "ce_position e = None" by simp
  qed
  have "map (\<lambda>e. e\<lparr>ce_position := None\<rparr>) (countedElements tr act els True) =
        map (\<lambda>e. e\<lparr>ce_position := None\<rparr>) ?s"
    by (simp only: countedElements_enabled strip_position_enumerate)
  also have "\<dots> = ?s"
  proof (rule map_idI)
    fix e assume "e \<in> set ?s"
    with none have "ce_position e = None" by blast
    then show "e\<lparr>ce_position := None\<rparr> = e" by (cases e) simp
  qed
  finally show ?thesis .
qed

lemma countedElements_length:
  "length (countedElements tr act els True) = length (normalisedElements tr act els)"
  by (simp add: countedElements_enabled)

lemma countedElements_positions:
  "map ce_position (countedElements tr act els True) =
     map Some [1..<Suc (length (countedElements tr act els True))]"
  by (simp only: countedElements_length)
     (simp only: countedElements_enabled positions_enumerate length_sort length_map)

lemma countedElements_fields:
  assumes "e \<in> set (countedElements tr act els True)"
  shows "map_of (normalisedElements tr act els) (ce_element e) = Some (e\<lparr>ce_position := None\<rparr>)"
proof -
  from assms have "e\<lparr>ce_position := None\<rparr> \<in> 
      set (map (\<lambda>e. e\<lparr>ce_position := None\<rparr>) (countedElements tr act els True))"
    by (simp del: map_map)
  then have "e\<lparr>ce_position := None\<rparr> \<in> set (map snd (normalisedElements tr act els))"
    by (simp only: countedElements_strip set_sort)
  from normalisedElements_entry [OF this] show ?thesis by simp
qed


lemma sorted_desc_sort_key:
  "sorted_wrt (\<lambda>a b. ce_count b \<le> ce_count a) (sort_key (\<lambda>e. - ce_count e) xs)"
proof -
  have "sorted (map (\<lambda>e. - ce_count e) (sort_key (\<lambda>e. - ce_count e) xs))"
    by (rule sorted_sort_key)
  then show ?thesis
    by (simp add: sorted_wrt_map)
qed

lemma countedElements_sorted:
  "sorted_wrt (\<lambda>a b. ce_count b \<le> ce_count a) (countedElements tr act els True)"
proof -
  have "sorted_wrt (\<lambda>a b. ce_count b \<le> ce_count a)
          (map (\<lambda>e. e\<lparr>ce_position := None\<rparr>) (countedElements tr act els True))"
    by (simp only: countedElements_strip sorted_desc_sort_key)
  then show ?thesis
    by (simp add: sorted_wrt_map)
qed

lemma countedElements_stable:
  "filter (\<lambda>e. ce_count e = k) (map (\<lambda>e. e\<lparr>ce_position := None\<rparr>) (countedElements tr act els True)) =
   filter (\<lambda>e. ce_count e = k) (map snd (normalisedElements tr act els))"
proof -
  have "filter (\<lambda>e. - ce_count e = - k) (sort_key (\<lambda>e. - ce_count e) (map snd (normalisedElements tr act els))) =
        filter (\<lambda>e. - ce_count e = - k) (map snd (normalisedElements tr act els))"
    by (rule sort_key_stable)
  then show ?thesis
    by (simp add: countedElements_strip)
qed

lemma sum_list_filter_split:
  fixes f :: "'b \<Rightarrow> rat"
  shows "sum_list (map f (filter P xs)) =
     sum_list (map f (filter (\<lambda>x. P x \<and> \<not> Q x) xs)) +
     sum_list (map f (filter (\<lambda>x. P x \<and> Q x) xs))"
  by (induction xs) simp_all

lemma normalisedElements_keys:
  "map ce_element (map snd (normalisedElements tr act els)) =
     map fst (normalisedElements tr act els)"
proof -
  have "\<forall>p \<in> set (normalisedElements tr act els). ce_element (snd p) = fst p"
  proof
    fix p assume p: "p \<in> set (normalisedElements tr act els)"
    then have "snd p \<in> set (map snd (normalisedElements tr act els))" by simp
    from normalisedElements_entry [OF this]
    have "map_of (normalisedElements tr act els) (ce_element (snd p)) = Some (snd p)" .
    moreover have "map_of (normalisedElements tr act els) (fst p) = Some (snd p)"
      using p distinct_normalisedElements [of tr act els] by simp
    ultimately show "ce_element (snd p) = fst p"
      using normalisedElements_inv [of tr act els "fst p"] by simp
  qed
  then show ?thesis by simp
qed

lemma countedElements_distinct:
  "distinct (map ce_element (countedElements tr act els True))"
proof -
  let ?n = "map snd (normalisedElements tr act els)"
  have "map ce_element (countedElements tr act els True) =
        map ce_element (map (\<lambda>e. e\<lparr>ce_position := None\<rparr>) (countedElements tr act els True))"
    by simp
  also have "\<dots> = map ce_element (sort_key (\<lambda>e. - ce_count e) ?n)"
    by (simp only: countedElements_strip)
  finally have "map ce_element (countedElements tr act els True) =
      map ce_element (sort_key (\<lambda>e. - ce_count e) ?n)" .
  moreover have "mset (map ce_element (sort_key (\<lambda>e. - ce_count e) ?n)) =
      mset (map ce_element ?n)"
    by (simp only: mset_map mset_sort)
  ultimately have "mset (map ce_element (countedElements tr act els True)) =
      mset (map ce_element ?n)"
    by (simp only:)
  then have "distinct (map ce_element (countedElements tr act els True)) =
      distinct (map ce_element ?n)"
    by (rule mset_eq_imp_distinct_iff)
  then show ?thesis
    by (simp only: normalisedElements_keys distinct_normalisedElements)
qed

lemma countedElements_covers:
  assumes "x \<in> set els" "tr (ce_element x) = Some t"
  shows "t \<in> ce_element ` set (countedElements tr act els True)"
proof -
  from assms normalisedElements_inv [of tr act els t]
  obtain v where v: "map_of (normalisedElements tr act els) t = Some v"
    by (cases "map_of (normalisedElements tr act els) t") auto
  then have "v \<in> set (map snd (normalisedElements tr act els))"
    by (auto dest: map_of_SomeD intro: rev_image_eqI)
  then have "v \<in> set (map (\<lambda>e. e\<lparr>ce_position := None\<rparr>) (countedElements tr act els True))"
    by (simp only: countedElements_strip set_sort)
  then obtain e where e: "e \<in> set (countedElements tr act els True)"
    and ve: "v = e\<lparr>ce_position := None\<rparr>"
    by auto
  from v normalisedElements_inv [of tr act els t] have "ce_element v = t" by simp
  with ve have "ce_element e = t" by simp
  with e show ?thesis by auto
qed

text \<open>
  Claim C5. Every entry of the output of \<^verbatim>\<open>countedElements\<close> has
  \<open>count = clickCount + rageclickCount\<close>. No two entries share a canonical (trimmed) node,
  every resolved element that trims to a node has its entry, and the entry of a node
  merges all resolved elements that trim to it: its \<open>count\<close> is the sum of their counts,
  its \<open>rageclickCount\<close> the sum over those of type \<^verbatim>\<open>$rageclick\<close>, and its \<open>clickCount\<close>
  the sum over all the others.
\<close>

theorem countedElements_counts:
  "distinct (map ce_element (countedElements trimElement elementToActionStep elems enabled)) \<and>
   (\<forall>e \<in> set (countedElements trimElement elementToActionStep elems enabled).
      ce_count e = ce_clickCount e + ce_rageclickCount e \<and>
      ce_count e = sum_list (map ce_count
        (filter (\<lambda>x. trimElement (ce_element x) = Some (ce_element e)) elems)) \<and>
      ce_clickCount e = sum_list (map ce_count
        (filter (\<lambda>x. trimElement (ce_element x) = Some (ce_element e) \<and>
                     ce_type x \<noteq> ''$rageclick'') elems)) \<and>
      ce_rageclickCount e = sum_list (map ce_count
        (filter (\<lambda>x. trimElement (ce_element x) = Some (ce_element e) \<and>
                     ce_type x = ''$rageclick'') elems))) \<and>
   (enabled \<longrightarrow>
      (\<forall>x \<in> set elems. \<forall>t. trimElement (ce_element x) = Some t \<longrightarrow>
         t \<in> ce_element ` set (countedElements trimElement elementToActionStep elems enabled)))"
proof (cases enabled)
  case False
  then show ?thesis by (simp add: countedElements_def)
next
  case True
  have "ce_count e = ce_clickCount e + ce_rageclickCount e \<and>
      ce_count e = sum_list (map ce_count
        (filter (\<lambda>x. trimElement (ce_element x) = Some (ce_element e)) elems)) \<and>
      ce_clickCount e = sum_list (map ce_count
        (filter (\<lambda>x. trimElement (ce_element x) = Some (ce_element e) \<and>
                     ce_type x \<noteq> ''$rageclick'') elems)) \<and>
      ce_rageclickCount e = sum_list (map ce_count
        (filter (\<lambda>x. trimElement (ce_element x) = Some (ce_element e) \<and>
                     ce_type x = ''$rageclick'') elems))"
    if "e \<in> set (countedElements trimElement elementToActionStep elems True)" for e
  proof -
    from countedElements_fields [OF that]
      normalisedElements_inv [of trimElement elementToActionStep elems "ce_element e"]
    have parts: "ce_count e = sum_list (map ce_count
        (filter (\<lambda>x. trimElement (ce_element x) = Some (ce_element e)) elems))"
      "ce_clickCount e = sum_list (map ce_count
        (filter (\<lambda>x. trimElement (ce_element x) = Some (ce_element e) \<and>
                     ce_type x \<noteq> ''$rageclick'') elems))"
      "ce_rageclickCount e = sum_list (map ce_count
        (filter (\<lambda>x. trimElement (ce_element x) = Some (ce_element e) \<and>
                     ce_type x = ''$rageclick'') elems))"
      by simp_all
    from parts sum_list_filter_split
      [where f = ce_count and xs = elems
         and P = "\<lambda>x. trimElement (ce_element x) = Some (ce_element e)"
         and Q = "\<lambda>x. ce_type x = ''$rageclick''"]
    show ?thesis by simp
  qed
  moreover from True have en: "enabled = True" by simp
  ultimately show ?thesis
    unfolding en
    using countedElements_distinct [of trimElement elementToActionStep elems]
      countedElements_covers [of _ elems trimElement _ elementToActionStep]
    by blast
qed

theorem countedElements_counts_witness:
  "countedElements (\<lambda>n. if n = 0 then None else Some (n mod 10)) (\<lambda>n. ())
     [\<lparr>ce_element = 1, ce_count = 3, ce_selector = ''a'', ce_hash = None,
       ce_type = ''$autocapture''\<rparr>,
      \<lparr>ce_element = 11, ce_count = 2, ce_selector = ''b'', ce_hash = None,
       ce_type = ''$rageclick''\<rparr>]
     True =
   [\<lparr>ce_element = 1, ce_count = 3 + 2, ce_selector = ''a'', ce_hash = None,
     ce_type = ''$autocapture'', ce_clickCount = 3, ce_rageclickCount = 2,
     ce_actionStep = (), ce_position = Some 1\<rparr>]"
  using countedElements_counts
    [of "\<lambda>n. if n = 0 then None else Some (n mod 10)" "\<lambda>n. ()"
        "[\<lparr>ce_element = 1, ce_count = 3, ce_selector = ''a'', ce_hash = None,
           ce_type = ''$autocapture''\<rparr>,
          \<lparr>ce_element = 11, ce_count = 2, ce_selector = ''b'', ce_hash = None,
           ce_type = ''$rageclick''\<rparr>]"
        True]
  by (simp add: countedElements_def normalisedElements_def countedElementsStep_def Let_def
      enumerate_eq_zip)

text \<open>
  Claim C6. The output of \<^verbatim>\<open>countedElements\<close> is sorted by descending count, its
  positions are \<open>1, 2, \<dots>\<close> in the order of the list, and entries of equal count keep
  the order in which the \<^verbatim>\<open>Map\<close> received them (the sort is stable).
\<close>

theorem countedElements_ranked:
  "sorted_wrt (\<lambda>a b. ce_count b \<le> ce_count a)
     (countedElements trimElement elementToActionStep elems enabled) \<and>
   map ce_position (countedElements trimElement elementToActionStep elems enabled) =
     map Some [1..<Suc (length (countedElements trimElement elementToActionStep elems enabled))] \<and>
   (enabled \<longrightarrow>
      (\<forall>k. filter (\<lambda>e. ce_count e = k)
             (map (\<lambda>e. e\<lparr>ce_position := None\<rparr>)
                (countedElements trimElement elementToActionStep elems enabled)) =
           filter (\<lambda>e. ce_count e = k)
             (map snd (normalisedElements trimElement elementToActionStep elems))))"
proof (cases enabled)
  case False
  then show ?thesis by (simp add: countedElements_def)
next
  case True
  then have en: "enabled = True" by simp
  show ?thesis
    unfolding en
    using countedElements_sorted [of trimElement elementToActionStep elems]
      countedElements_positions [of trimElement elementToActionStep elems]
      countedElements_stable [of _ trimElement elementToActionStep elems]
    by simp
qed

theorem countedElements_ranked_witness:
  "map (\<lambda>e. (ce_element e, ce_count e, ce_position e))
     (countedElements (\<lambda>n. if n = 0 then None else Some (n mod 10)) (\<lambda>n. ())
        [\<lparr>ce_element = 1, ce_count = 5, ce_selector = ''a'', ce_hash = None,
          ce_type = ''$autocapture''\<rparr>,
         \<lparr>ce_element = 2, ce_count = 5, ce_selector = ''b'', ce_hash = None,
          ce_type = ''$autocapture''\<rparr>,
         \<lparr>ce_element = 12, ce_count = 4, ce_selector = ''c'', ce_hash = None,
          ce_type = ''$rageclick''\<rparr>,
         \<lparr>ce_element = 3, ce_count = 5, ce_selector = ''d'', ce_hash = None,
          ce_type = ''$autocapture''\<rparr>]
        True) =
   [(2, 9, Some 1), (1, 5, Some 2), (3, 5, Some 3)]"
  using countedElements_ranked
    [of "\<lambda>n. if n = 0 then None else Some (n mod 10)" "\<lambda>n. ()"
        "[\<lparr>ce_element = 1, ce_count = 5, ce_selector = ''a'', ce_hash = None,
           ce_type = ''$autocapture''\<rparr>,
          \<lparr>ce_element = 2, ce_count = 5, ce_selector = ''b'', ce_hash = None,
           ce_type = ''$autocapture''\<rparr>,
          \<lparr>ce_element = 12, ce_count = 4, ce_selector = ''c'', ce_hash = None,
           ce_type = ''$rageclick''\<rparr>,
          \<lparr>ce_element = 3, ce_count = 5, ce_selector = ''d'', ce_hash = None,
           ce_type = ''$autocapture''\<rparr>]"
        True]
  by (simp add: countedElements_def normalisedElements_def countedElementsStep_def Let_def
      enumerate_eq_zip)

subsection \<open>Loading the element statistics\<close>


subsection \<open>Selector resolver\<close>



lemma matchElements_selector_error:
  "i < length (ev_elements event) \<Longrightarrow>
   selectorFor ts das mlh (ev_elements event ! i) = Inl err \<Longrightarrow>
   matchElements ts q das mlh event cache lastSel i = Inl err"
  by (subst matchElements.simps) simp
















end
